theory Spec2Isabelle
  imports Complex_Main "HOL-Library.AList" "HOL-Library.Sublist" "HOL-Library.Multiset"
    "HOL-Library.Char_ord" "HOL-Library.List_Lexorder"
begin

section \<open>Python values read from session files\<close>

text \<open>
  \<^verbatim>\<open>json.load\<close> yields \<^verbatim>\<open>None\<close>, booleans, numbers, strings, lists and dicts. Numbers are
  the finite ones (an int or a float denotes a rational; \<^verbatim>\<open>NaN\<close> and the infinities are left
  out), strings are the UTF-8 bytes of the Python string, and a dict is an association list in
  insertion order.
\<close>

datatype json =
    JNull
  | JBool bool
  | JNum rat
  | JStr string
  | JArr "json list"
  | JObj "(string \<times> json) list"

datatype py_error =
    AttributeError | TypeError | KeyError | JSONDecodeError | UnicodeDecodeError
  | FileNotFoundError | OSError

text \<open>Truth value of a Python object, as \<^verbatim>\<open>if x:\<close> and \<^verbatim>\<open>not x\<close> take it.\<close>

fun truthy :: "json \<Rightarrow> bool" where
  "truthy JNull = False"
| "truthy (JBool b) = b"
| "truthy (JNum r) = (r \<noteq> 0)"
| "truthy (JStr s) = (s \<noteq> [])"
| "truthy (JArr xs) = (xs \<noteq> [])"
| "truthy (JObj kvs) = (kvs \<noteq> [])"

text \<open>\<^verbatim>\<open>k in x\<close> for a string literal \<^verbatim>\<open>k\<close>: key membership in a dict, element membership in a
  list, substring test in a string, \<^verbatim>\<open>TypeError\<close> for anything else.\<close>

fun py_in :: "string \<Rightarrow> json \<Rightarrow> py_error + bool" where
  "py_in k (JObj kvs) = Inr (k \<in> set (map fst kvs))"
| "py_in k (JArr xs) = Inr (JStr k \<in> set xs)"
| "py_in k (JStr s) = Inr (sublist k s)"
| "py_in k _ = Inl TypeError"

text \<open>\<^verbatim>\<open>x[k]\<close> for a string literal \<^verbatim>\<open>k\<close>.\<close>

fun py_getitem :: "json \<Rightarrow> string \<Rightarrow> py_error + json" where
  "py_getitem (JObj kvs) k = (case map_of kvs k of None \<Rightarrow> Inl KeyError | Some v \<Rightarrow> Inr v)"
| "py_getitem _ k = Inl TypeError"

text \<open>\<^verbatim>\<open>x.get(k, default)\<close>: only a dict has the method.\<close>

fun py_get :: "json \<Rightarrow> string \<Rightarrow> json \<Rightarrow> py_error + json" where
  "py_get (JObj kvs) k d = Inr (case map_of kvs k of None \<Rightarrow> d | Some v \<Rightarrow> v)"
| "py_get _ k d = Inl AttributeError"

text \<open>The items a \<^verbatim>\<open>for\<close> loop visits: the elements of a list, the keys of a dict, the
  characters of a string; other values are not iterable.\<close>

fun py_iter :: "json \<Rightarrow> py_error + json list" where
  "py_iter (JArr xs) = Inr xs"
| "py_iter (JObj kvs) = Inr (map (\<lambda>kv. JStr (fst kv)) kvs)"
| "py_iter (JStr s) = Inr (map (\<lambda>c. JStr [c]) s)"
| "py_iter _ = Inl TypeError"

text \<open>\<^verbatim>\<open>x > t\<close> for a float \<^verbatim>\<open>t\<close>: defined on numbers and on booleans (which are the
  integers 0 and 1).\<close>

fun py_gt :: "json \<Rightarrow> rat \<Rightarrow> py_error + bool" where
  "py_gt (JNum r) t = Inr (r > t)"
| "py_gt (JBool b) t = Inr (of_bool b > t)"
| "py_gt _ t = Inl TypeError"

text \<open>\<^verbatim>\<open>len(x)\<close> is defined on lists, dicts and strings.\<close>

fun py_len :: "json \<Rightarrow> py_error + nat" where
  "py_len (JArr xs) = Inr (length xs)"
| "py_len (JObj kvs) = Inr (length kvs)"
| "py_len (JStr s) = Inr (length s)"
| "py_len _ = Inl TypeError"

text \<open>
  \<^verbatim>\<open>str.lower\<close> on ASCII strings, where it maps the letters A to Z to a to z and nothing
  else. On a string with other characters Python consults the Unicode tables, which this
  definition does not follow: every statement below about a lower-cased username is made for
  ASCII usernames (\<open>ascii_only\<close>), as account names are.
\<close>

definition ascii_only :: "string \<Rightarrow> bool" where
  "ascii_only s = list_all (\<lambda>c. (of_char c :: nat) < 128) s"

definition lower_char :: "char \<Rightarrow> char" where
  "lower_char c =
     (let n = (of_char c :: nat) in if 65 \<le> n \<and> n \<le> 90 then char_of (n + 32) else c)"

definition lower :: "string \<Rightarrow> string" where
  "lower s = map lower_char s"

text \<open>\<^verbatim>\<open>s.replace(old, new)\<close> for a non-empty \<^verbatim>\<open>old\<close>: every occurrence, left to right,
  without overlap.\<close>

function replace :: "string \<Rightarrow> string \<Rightarrow> string \<Rightarrow> string" where
  "replace old new [] = []"
| "replace old new (c # cs) =
     (if old \<noteq> [] \<and> prefix old (c # cs)
      then new @ replace old new (drop (length old) (c # cs))
      else c # replace old new cs)"
  by pat_completeness auto
termination
  by (relation "measure (\<lambda>(old, new, s). length s)") (auto simp: neq_Nil_conv)

section \<open>The session directory\<close>

text \<open>
  A file holds a JSON document, text that \<^verbatim>\<open>json.load\<close> rejects, or bytes that are not text
  in the encoding \<^verbatim>\<open>open\<close> uses, and has the modification time and size \<^verbatim>\<open>stat\<close> reports.
  The session directory is the list of its regular files in the order the operating system
  enumerates them, each name once. Opening, writing and unlinking an existing regular file
  succeed.
\<close>

datatype contents = Unreadable | Undecodable | Doc json

record regular_file =
  content :: contents
  st_mtime :: rat
  st_size :: nat

type_synonym directory = "(string \<times> regular_file) list"

definition exists_file :: "directory \<Rightarrow> string \<Rightarrow> bool" where
  "exists_file fs p = (map_of fs p \<noteq> None)"

text \<open>
  \<^verbatim>\<open>Path.exists()\<close>, which the code calls outside its \<^verbatim>\<open>try\<close> blocks: \<^verbatim>\<open>stat\<close> fails with
  \<^verbatim>\<open>ENAMETOOLONG\<close> on a name longer than the \<^verbatim>\<open>name_max\<close> bytes the file system allows (255
  on the usual ones), and \<^verbatim>\<open>exists\<close> passes that \<^verbatim>\<open>OSError\<close> on. \<^verbatim>\<open>remove_session\<close> below
  carries this outcome; \<^verbatim>\<open>load_session\<close>, \<^verbatim>\<open>list_sessions\<close> and \<^verbatim>\<open>check_session_file\<close> are
  modelled for paths within the limit, and their theorems are stated for files that exist.
\<close>

definition path_exists :: "nat \<Rightarrow> directory \<Rightarrow> string \<Rightarrow> py_error + bool" where
  "path_exists name_max fs p =
     (if name_max < length p then Inl OSError else Inr (exists_file fs p))"

text \<open>\<^verbatim>\<open>json.load(open(p))\<close>.\<close>

definition read_contents :: "contents \<Rightarrow> py_error + json" where
  "read_contents c =
     (case c of
        Doc d \<Rightarrow> Inr d
      | Unreadable \<Rightarrow> Inl JSONDecodeError
      | Undecodable \<Rightarrow> Inl UnicodeDecodeError)"

definition load_json :: "directory \<Rightarrow> string \<Rightarrow> py_error + json" where
  "load_json fs p =
     (case map_of fs p of
        Some f \<Rightarrow> read_contents (content f)
      | None \<Rightarrow> Inl FileNotFoundError)"

text \<open>\<^verbatim>\<open>json.dump(d, open(p, 'w'))\<close>: the file reads back as \<^verbatim>\<open>d\<close>; \<^verbatim>\<open>st\<close> is the
  modification time and size the operating system gives the rewritten file.\<close>

definition dump_json :: "directory \<Rightarrow> string \<Rightarrow> json \<Rightarrow> rat \<times> nat \<Rightarrow> directory" where
  "dump_json fs p d st =
     AList.update p \<lparr>content = Doc d, st_mtime = fst st, st_size = snd st\<rparr> fs"

section \<open>The client\<close>

text \<open>
  The fields of \<^verbatim>\<open>InstagramClient\<close> the session code reads and writes. \<^verbatim>\<open>session_path\<close> is
  the file's name inside the session directory. \<^verbatim>\<open>page\<close> is \<^verbatim>\<open>None\<close> without a browser
  page, and otherwise holds the outcome of \<^verbatim>\<open>page.context.storage_state()\<close>.
\<close>

record client =
  username :: "string option"
  session_path :: string
  is_logged_in :: bool
  current_username :: json
  page :: "(py_error + json) option"

text \<open>\<^verbatim>\<open>__init__\<close>, lines 66 to 79 of client.py.\<close>

definition init_client :: "string option \<Rightarrow> client" where
  "init_client u =
     \<lparr>username = u,
      session_path =
        (case u of
           Some n \<Rightarrow> if n \<noteq> [] then lower n @ ''_session.json'' else ''default_session.json''
         | None \<Rightarrow> ''default_session.json''),
      is_logged_in = False,
      current_username = JNull,
      page = None\<rparr>"

text \<open>
  \<^verbatim>\<open>remove_session\<close>: the returned boolean and the directory afterwards, or the exception
  that reaches the caller. The test \<^verbatim>\<open>session_file.exists()\<close> at line 503 stands before the
  \<^verbatim>\<open>try\<close>, so its \<^verbatim>\<open>OSError\<close> is not caught.
\<close>

definition remove_session ::
  "nat \<Rightarrow> string \<Rightarrow> directory \<Rightarrow> py_error + bool \<times> directory" where
  "remove_session name_max u fs =
     (let session_file = lower u @ ''_session.json'';
          session_file = (if lower u = ''default'' then ''default_session.json'' else session_file)
      in case path_exists name_max fs session_file of
           Inl e \<Rightarrow> Inl e
         | Inr present \<Rightarrow>
             if \<not> present then Inr (False, fs)
             else Inr (True, AList.delete session_file fs))"

section \<open>Saving and loading a session\<close>

text \<open>\<^verbatim>\<open>x[k] = v\<close> for a string literal \<^verbatim>\<open>k\<close>: a dict keeps the position of a key it
  already has and appends a new one.\<close>

fun py_setitem :: "json \<Rightarrow> string \<Rightarrow> json \<Rightarrow> py_error + json" where
  "py_setitem (JObj kvs) k v = Inr (JObj (AList.update k v kvs))"
| "py_setitem _ k v = Inl TypeError"


text \<open>
  Lines 352 to 365 of \<^verbatim>\<open>load_session\<close>, run when the live cookie is found: the username
  is taken from the metadata, then from the constructor argument if the metadata has none,
  and the file is rewritten with \<^verbatim>\<open>last_used\<close> set to the clock reading \<^verbatim>\<open>t_used\<close>.
\<close>

definition load_metadata ::
  "json \<Rightarrow> client \<Rightarrow> directory \<Rightarrow> rat \<Rightarrow> rat \<times> nat \<Rightarrow> py_error + client \<times> directory" where
  "load_metadata session_data c fs t_used st =
     (case py_in ''metadata'' session_data of
        Inl e \<Rightarrow> Inl e
      | Inr has_metadata \<Rightarrow>
          if \<not> has_metadata then Inr (c, fs)
          else
            (case py_getitem session_data ''metadata'' of
               Inl e \<Rightarrow> Inl e
             | Inr metadata \<Rightarrow>
                 (case py_get metadata ''username'' JNull of
                    Inl e \<Rightarrow> Inl e
                  | Inr u \<Rightarrow>
                      let c1 = c\<lparr>current_username := u\<rparr>;
                          c2 = (case username c1 of
                                  Some n \<Rightarrow>
                                    if \<not> truthy (current_username c1) \<and> n \<noteq> []
                                    then c1\<lparr>current_username := JStr n\<rparr> else c1
                                | None \<Rightarrow> c1)
                      in (case py_setitem metadata ''last_used'' (JNum t_used) of
                            Inl e \<Rightarrow> Inl e
                          | Inr metadata' \<Rightarrow>
                              (case py_setitem session_data ''metadata'' metadata' of
                                 Inl e \<Rightarrow> Inl e
                               | Inr session_data' \<Rightarrow>
                                   Inr (c2, dump_json fs (session_path c2) session_data' st))))))"

text \<open>The \<^verbatim>\<open>for cookie in cookies\<close> loop of \<^verbatim>\<open>load_session\<close>; the first component of the
  result is \<^verbatim>\<open>session_valid\<close>.\<close>

fun load_session_loop ::
  "json list \<Rightarrow> json \<Rightarrow> client \<Rightarrow> directory \<Rightarrow> rat \<Rightarrow> rat \<Rightarrow> rat \<times> nat
     \<Rightarrow> py_error + bool \<times> client \<times> directory" where
  "load_session_loop [] session_data c fs current_time t_used st = Inr (False, c, fs)"
| "load_session_loop (cookie # cookies) session_data c fs current_time t_used st =
     (case py_get cookie ''name'' JNull of
        Inl e \<Rightarrow> Inl e
      | Inr name \<Rightarrow>
          if name = JStr ''sessionid'' then
            (case py_get cookie ''expires'' (JNum 0) of
               Inl e \<Rightarrow> Inl e
             | Inr expires \<Rightarrow>
                 (case py_gt expires current_time of
                    Inl e \<Rightarrow> Inl e
                  | Inr live \<Rightarrow>
                      if live then
                        (case load_metadata session_data c fs t_used st of
                           Inl e \<Rightarrow> Inl e
                         | Inr (c', fs') \<Rightarrow> Inr (True, c', fs'))
                      else load_session_loop cookies session_data c fs current_time t_used st))
          else load_session_loop cookies session_data c fs current_time t_used st)"

text \<open>The \<^verbatim>\<open>try\<close> block of \<^verbatim>\<open>load_session\<close>.\<close>

definition load_session_try ::
  "client \<Rightarrow> directory \<Rightarrow> rat \<Rightarrow> rat \<Rightarrow> rat \<times> nat \<Rightarrow> py_error + bool \<times> client \<times> directory" where
  "load_session_try c fs current_time t_used st =
     (case load_json fs (session_path c) of
        Inl e \<Rightarrow> Inl e
      | Inr session_data \<Rightarrow>
          (case py_in ''storage_state'' session_data of
             Inl e \<Rightarrow> Inl e
           | Inr has_state \<Rightarrow>
               if has_state then
                 (case py_getitem session_data ''storage_state'' of
                    Inl e \<Rightarrow> Inl e
                  | Inr storage_state \<Rightarrow>
                      (case py_get storage_state ''cookies'' (JArr []) of
                         Inl e \<Rightarrow> Inl e
                       | Inr cookies \<Rightarrow>
                           (case py_iter cookies of
                              Inl e \<Rightarrow> Inl e
                            | Inr items \<Rightarrow>
                                (case load_session_loop items session_data c fs
                                        current_time t_used st of
                                   Inl e \<Rightarrow> Inl e
                                 | Inr (session_valid, c', fs') \<Rightarrow>
                                     if session_valid
                                     then Inr (True, c'\<lparr>is_logged_in := True\<rparr>, fs')
                                     else Inr (False, c', fs')))))
               else Inr (False, c, fs)))"

text \<open>
  \<^verbatim>\<open>load_session\<close>: the returned boolean, the client and the directory afterwards.
  \<^verbatim>\<open>current_time\<close> is the clock reading compared with the cookie, \<^verbatim>\<open>t_used\<close> the later one
  stored as \<^verbatim>\<open>last_used\<close>. Every exception is caught and gives \<^verbatim>\<open>False\<close>; each of them is
  raised before the client or the file has been changed.
\<close>

definition load_session ::
  "client \<Rightarrow> directory \<Rightarrow> rat \<Rightarrow> rat \<Rightarrow> rat \<times> nat \<Rightarrow> bool \<times> client \<times> directory" where
  "load_session c fs current_time t_used st =
     (if \<not> exists_file fs (session_path c) then (False, c, fs)
      else
        (case load_session_try c fs current_time t_used st of
           Inl e \<Rightarrow> (False, c, fs)
         | Inr r \<Rightarrow> r))"

section \<open>Listing the sessions\<close>

text \<open>One dictionary of the list \<^verbatim>\<open>list_sessions\<close> returns.\<close>

record entry =
  entry_username :: json
  file_path :: string
  file_name :: string
  created_at :: json
  last_used :: json
  file_size :: nat
  is_valid :: bool

text \<open>The placeholder shown when no username is known: the UTF-8 bytes of the Persian word
  in line 444 of client.py.\<close>

definition unknown_username :: string where
  "unknown_username =
     map char_of [217, 134, 216, 167, 217, 133, 216, 180, 216, 174, 216, 181 :: nat]"

text \<open>The cookie loop of \<^verbatim>\<open>list_sessions\<close>: the value of \<^verbatim>\<open>is_valid\<close> after it.\<close>

fun is_valid_loop :: "json list \<Rightarrow> rat \<Rightarrow> py_error + bool" where
  "is_valid_loop [] current_time = Inr False"
| "is_valid_loop (cookie # cookies) current_time =
     (case py_get cookie ''name'' JNull of
        Inl e \<Rightarrow> Inl e
      | Inr name \<Rightarrow>
          if name = JStr ''sessionid'' then
            (case py_get cookie ''expires'' (JNum 0) of
               Inl e \<Rightarrow> Inl e
             | Inr expires \<Rightarrow>
                 (case py_gt expires current_time of
                    Inl e \<Rightarrow> Inl e
                  | Inr live \<Rightarrow> if live then Inr True else is_valid_loop cookies current_time))
          else is_valid_loop cookies current_time)"

text \<open>Lines 446 to 458: \<^verbatim>\<open>is_valid\<close> for one loaded document.\<close>

definition session_is_valid :: "json \<Rightarrow> rat \<Rightarrow> py_error + bool" where
  "session_is_valid session_data current_time =
     (case py_in ''storage_state'' session_data of
        Inl e \<Rightarrow> Inl e
      | Inr has_state \<Rightarrow>
          if has_state then
            (case py_getitem session_data ''storage_state'' of
               Inl e \<Rightarrow> Inl e
             | Inr storage_state \<Rightarrow>
                 (case py_get storage_state ''cookies'' (JArr []) of
                    Inl e \<Rightarrow> Inl e
                  | Inr cookies \<Rightarrow>
                      (case py_iter cookies of
                         Inl e \<Rightarrow> Inl e
                       | Inr items \<Rightarrow> is_valid_loop items current_time)))
          else Inr False)"

text \<open>Lines 418 to 423: the username the file's name carries, \<^verbatim>\<open>None\<close> when it has
  none.\<close>

definition filename_username :: "string \<Rightarrow> json" where
  "filename_username name =
     (if suffix ''_session.json'' name then
        (let u = replace ''_session.json'' [] name in if u = ''default'' then JNull else JStr u)
      else JNull)"

text \<open>Lines 429 to 439: \<^verbatim>\<open>metadata_username\<close>, \<^verbatim>\<open>created_at\<close> and \<^verbatim>\<open>last_used\<close>.\<close>

definition read_metadata :: "json \<Rightarrow> regular_file \<Rightarrow> py_error + json \<times> json \<times> json" where
  "read_metadata session_data f =
     (case py_in ''metadata'' session_data of
        Inl e \<Rightarrow> Inl e
      | Inr has_metadata \<Rightarrow>
          if has_metadata then
            (case py_getitem session_data ''metadata'' of
               Inl e \<Rightarrow> Inl e
             | Inr metadata \<Rightarrow>
                 (case py_get metadata ''username'' JNull of
                    Inl e \<Rightarrow> Inl e
                  | Inr metadata_username \<Rightarrow>
                      (case py_get metadata ''created_at'' (JNum 0) of
                         Inl e \<Rightarrow> Inl e
                       | Inr created \<Rightarrow>
                           (case py_get metadata ''last_used'' (JNum 0) of
                              Inl e \<Rightarrow> Inl e
                            | Inr used \<Rightarrow> Inr (metadata_username, created, used)))))
          else Inr (JNull, JNum (st_mtime f), JNum (st_mtime f)))"

text \<open>Lines 441 to 444: the metadata's username if it has one, else the file name's, else
  the placeholder.\<close>

definition resolve_username :: "json \<Rightarrow> json \<Rightarrow> json" where
  "resolve_username metadata_username from_filename =
     (let u = (if truthy metadata_username then metadata_username else from_filename)
      in if \<not> truthy u then JStr unknown_username else u)"

text \<open>
  \<^verbatim>\<open>str(session_dir_path / name)\<close> for a file name, where \<^verbatim>\<open>session_dir_path\<close> is the
  directory as \<^verbatim>\<open>pathlib\<close> prints it: the current directory \<^verbatim>\<open>.\<close> is dropped, and no
  separator is added after a root.
\<close>

definition path_join :: "string \<Rightarrow> string \<Rightarrow> string" where
  "path_join session_dir_path name =
     (if session_dir_path = ''.'' then name
      else if suffix ''/'' session_dir_path then session_dir_path @ name
      else session_dir_path @ ''/'' @ name)"

text \<open>
  The \<^verbatim>\<open>try\<close> block of the loop of \<^verbatim>\<open>list_sessions\<close> for the existing file \<^verbatim>\<open>f\<close> named
  \<^verbatim>\<open>name\<close>; \<^verbatim>\<open>session_dir_path\<close> is the directory as \<^verbatim>\<open>pathlib\<close> prints it.
\<close>

definition session_entry :: "string \<Rightarrow> string \<Rightarrow> regular_file \<Rightarrow> rat \<Rightarrow> py_error + entry" where
  "session_entry session_dir_path name f current_time =
     (case read_contents (content f) of
        Inl e \<Rightarrow> Inl e
      | Inr session_data \<Rightarrow>
          (case read_metadata session_data f of
             Inl e \<Rightarrow> Inl e
           | Inr (metadata_username, created, used) \<Rightarrow>
               (case session_is_valid session_data current_time of
                  Inl e \<Rightarrow> Inl e
                | Inr valid \<Rightarrow>
                    Inr \<lparr>entry_username =
                           resolve_username metadata_username (filename_username name),
                         file_path = path_join session_dir_path name,
                         file_name = name,
                         created_at = created,
                         last_used = used,
                         file_size = st_size f,
                         is_valid = valid\<rparr>)))"

text \<open>The candidate files: what the pattern \<^verbatim>\<open>*_session.json\<close> matches, in directory
  order, followed by \<^verbatim>\<open>default_session.json\<close>.\<close>

definition session_files :: "directory \<Rightarrow> string list" where
  "session_files fs =
     filter (\<lambda>name. suffix ''_session.json'' name) (map fst fs) @ [''default_session.json'']"

text \<open>
  The loop over the candidates. \<^verbatim>\<open>clock i\<close> is the reading of \<^verbatim>\<open>time.time()\<close> while
  candidate number \<^verbatim>\<open>i\<close> is examined. A candidate that does not exist, or whose processing
  raises, appends nothing.
\<close>

fun collect_sessions ::
  "string \<Rightarrow> directory \<Rightarrow> (nat \<Rightarrow> rat) \<Rightarrow> nat \<Rightarrow> string list \<Rightarrow> entry list" where
  "collect_sessions session_dir_path fs clock i [] = []"
| "collect_sessions session_dir_path fs clock i (name # names) =
     (case map_of fs name of
        None \<Rightarrow> collect_sessions session_dir_path fs clock (Suc i) names
      | Some f \<Rightarrow>
          (case session_entry session_dir_path name f (clock i) of
             Inl e \<Rightarrow> collect_sessions session_dir_path fs clock (Suc i) names
           | Inr session \<Rightarrow>
               session # collect_sessions session_dir_path fs clock (Suc i) names))"

text \<open>A stable sort into descending order of the key: an element goes in front of the
  elements already placed that have the same key.\<close>

fun insort_desc :: "('a \<Rightarrow> 'k::linorder) \<Rightarrow> 'a \<Rightarrow> 'a list \<Rightarrow> 'a list" where
  "insort_desc key x [] = [x]"
| "insort_desc key x (y # ys) =
     (if key y \<le> key x then x # y # ys else y # insort_desc key x ys)"

definition sort_desc :: "('a \<Rightarrow> 'k::linorder) \<Rightarrow> 'a list \<Rightarrow> 'a list" where
  "sort_desc key xs = foldr (insort_desc key) xs []"

fun is_number :: "json \<Rightarrow> bool" where
  "is_number (JNum r) = True"
| "is_number (JBool b) = True"
| "is_number _ = False"

fun number_of :: "json \<Rightarrow> rat" where
  "number_of (JNum r) = r"
| "number_of (JBool b) = of_bool b"
| "number_of _ = 0"

fun is_str :: "json \<Rightarrow> bool" where
  "is_str (JStr s) = True"
| "is_str _ = False"

fun str_of :: "json \<Rightarrow> string" where
  "str_of (JStr s) = s"
| "str_of _ = []"

text \<open>
  \<^verbatim>\<open>sorted(xs, key=key, reverse=True)\<close> for keys read from JSON. A list of at most one
  element is returned without a comparison. Numbers (booleans among them) are ordered by
  value and strings by code point, stably; \<^verbatim>\<open>None\<close>, dicts and keys of mixed kinds make a
  comparison raise \<^verbatim>\<open>TypeError\<close>. Keys that are all lists, which Python orders when their
  elements allow it, are counted with the failures.
\<close>

definition py_sorted_reverse :: "('a \<Rightarrow> json) \<Rightarrow> 'a list \<Rightarrow> py_error + 'a list" where
  "py_sorted_reverse key xs =
     (if length xs \<le> 1 then Inr xs
      else if list_all (\<lambda>x. is_number (key x)) xs then Inr (sort_desc (\<lambda>x. number_of (key x)) xs)
      else if list_all (\<lambda>x. is_str (key x)) xs then Inr (sort_desc (\<lambda>x. str_of (key x)) xs)
      else Inl TypeError)"

text \<open>\<^verbatim>\<open>list_sessions\<close>; the directory is \<^verbatim>\<open>None\<close> when the path does not exist. The final
  \<^verbatim>\<open>sorted\<close> is outside every \<^verbatim>\<open>try\<close>, so its exception reaches the caller.\<close>

definition list_sessions ::
  "string \<Rightarrow> directory option \<Rightarrow> (nat \<Rightarrow> rat) \<Rightarrow> py_error + entry list" where
  "list_sessions session_dir_path dir clock =
     (case dir of
        None \<Rightarrow> Inr []
      | Some fs \<Rightarrow>
          py_sorted_reverse last_used
            (collect_sessions session_dir_path fs clock 0 (session_files fs)))"

section \<open>The stand-alone session check\<close>

text \<open>
  \<^verbatim>\<open>check_session_file\<close> of test_session.py. Only the \<^verbatim>\<open>JSONDecodeError\<close> of \<^verbatim>\<open>json.load\<close>
  is caught; a \<^verbatim>\<open>UnicodeDecodeError\<close> of reading the file and a \<^verbatim>\<open>TypeError\<close> of \<^verbatim>\<open>len\<close> in
  the summary lines reach the caller.
\<close>

definition check_session_file :: "directory \<Rightarrow> string \<Rightarrow> py_error + bool" where
  "check_session_file fs p =
     (if \<not> exists_file fs p then Inr False
      else
        (case load_json fs p of
           Inl e \<Rightarrow> if e = JSONDecodeError then Inr False else Inl e
         | Inr session_data \<Rightarrow>
             (case session_data of
                JObj kvs \<Rightarrow>
                  let required_keys = [''cookies'', ''origins''];
                      missing_keys = filter (\<lambda>key. key \<notin> set (map fst kvs)) required_keys
                  in if missing_keys \<noteq> [] then Inr False
                     else
                       (case py_get session_data ''cookies'' (JArr []) of
                          Inl e \<Rightarrow> Inl e
                        | Inr cookies \<Rightarrow>
                            (case (if \<not> truthy cookies then Inr 0 else py_len cookies) of
                               Inl e \<Rightarrow> Inl e
                             | Inr shown \<Rightarrow>
                                 (case py_len cookies of
                                    Inl e \<Rightarrow> Inl e
                                  | Inr number_of_cookies \<Rightarrow>
                                      (case py_get session_data ''origins'' (JArr []) of
                                         Inl e \<Rightarrow> Inl e
                                       | Inr origins \<Rightarrow>
                                           (case py_len origins of
                                              Inl e \<Rightarrow> Inl e
                                            | Inr number_of_origins \<Rightarrow> Inr True)))))
              | _ \<Rightarrow> Inr False)))"

section \<open>Manual login\<close>

text \<open>
  What one pass through the loop of \<^verbatim>\<open>manual_login\<close> meets: the browser does not start;
  \<^verbatim>\<open>page.goto\<close> raises a Playwright error; some other exception is raised; or the login page
  opens. In the last case the environment supplies the navigations of the page while the code
  waits (milliseconds since the wait began, and the location reached), the location
  \<^verbatim>\<open>page.url\<close> shows after the wait, and the result of \<^verbatim>\<open>verify_login_status()\<close>.
\<close>

datatype attempt =
    InitFailed
  | GotoError
  | OtherError
  | Opened "(nat \<times> string) list" string bool

datatype event = Wait nat | Sleep nat | Cleanup

definition BASE_URL :: string where
  "BASE_URL = ''https://www.instagram.com/''"

definition LOGIN_URL :: string where
  "LOGIN_URL = ''https://www.instagram.com/accounts/login/''"

text \<open>
  Modelled from the spec: the capability \<^verbatim>\<open>wait_for_url(handle, target, timeout)\<close> of the
  browser-automation library, which the repository calls and does not contain. It blocks
  until the page's location is \<^verbatim>\<open>target\<close>, for at most \<^verbatim>\<open>timeout\<close> milliseconds: the result
  is the time spent, and whether the target was reached (otherwise the call raises the
  library's timeout error).
\<close>

definition wait_for_url :: "string \<Rightarrow> nat \<Rightarrow> (nat \<times> string) list \<Rightarrow> nat \<times> bool" where
  "wait_for_url target timeout navigations =
     (case filter (\<lambda>nav. snd nav = target \<and> fst nav \<le> timeout) navigations of
        [] \<Rightarrow> (timeout, False)
      | nav # _ \<Rightarrow> (fst nav, True))"

text \<open>
  The \<^verbatim>\<open>while\<close> loop of \<^verbatim>\<open>manual_login\<close>. Every pass that does not return adds one to
  \<^verbatim>\<open>retry_count\<close>, so \<^verbatim>\<open>env retry_count\<close> is what the current pass meets. The result is the
  returned boolean and the waits, sleeps (in seconds) and \<^verbatim>\<open>finally\<close> clean-ups in order.
\<close>

function manual_login_loop :: "nat \<Rightarrow> nat \<Rightarrow> (nat \<Rightarrow> attempt) \<Rightarrow> bool \<times> event list" where
  "manual_login_loop retry_count max_retries env =
     (if retry_count < max_retries then
        (case env retry_count of
           InitFailed \<Rightarrow>
             (let (r, evs) = manual_login_loop (retry_count + 1) max_retries env
              in (r, [Sleep 2, Cleanup] @ evs))
         | GotoError \<Rightarrow>
             (let (r, evs) = manual_login_loop (retry_count + 1) max_retries env
              in (r, (if retry_count + 1 < max_retries then [Sleep 2] else []) @ [Cleanup] @ evs))
         | OtherError \<Rightarrow> (False, [Cleanup])
         | Opened navigations url verified \<Rightarrow>
             (let (waited, reached) = wait_for_url BASE_URL 300000 navigations in
              if reached then
                (if \<not> sublist ''accounts/login'' url
                 then (if verified then (True, [Wait waited, Cleanup])
                       else (False, [Wait waited, Cleanup]))
                 else (False, [Wait waited, Cleanup]))
              else
                (let (r, evs) = manual_login_loop (retry_count + 1) max_retries env
                 in (r, [Wait waited]
                        @ (if retry_count + 1 < max_retries then [Sleep 2] else [])
                        @ [Cleanup] @ evs))))
      else (False, []))"
  by pat_completeness auto
termination
  by (relation "measure (\<lambda>(retry_count, max_retries, env). max_retries - retry_count)") auto

declare manual_login_loop.simps [simp del]

definition manual_login :: "nat \<Rightarrow> (nat \<Rightarrow> attempt) \<Rightarrow> bool \<times> event list" where
  "manual_login max_retries env = manual_login_loop 0 max_retries env"

section \<open>The session record as the specification describes it\<close>

text \<open>
  A cookie of the stored cookie set is a dict whose \<^verbatim>\<open>expires\<close>, when present, is a number
  (epoch seconds). A session document is a dict; its \<^verbatim>\<open>storage_state\<close>, when present, is a
  dict whose \<^verbatim>\<open>cookies\<close>, when present, is a list of such cookies; its \<^verbatim>\<open>metadata\<close>, when
  present, is a dict.
\<close>

fun wf_cookie :: "json \<Rightarrow> bool" where
  "wf_cookie (JObj kvs) =
     (case map_of kvs ''expires'' of
        None \<Rightarrow> True
      | Some v \<Rightarrow> (case v of JNum e \<Rightarrow> True | _ \<Rightarrow> False))"
| "wf_cookie _ = False"

fun wf_storage_state :: "json \<Rightarrow> bool" where
  "wf_storage_state (JObj skvs) =
     (case map_of skvs ''cookies'' of
        None \<Rightarrow> True
      | Some cs \<Rightarrow> (case cs of JArr cookies \<Rightarrow> list_all wf_cookie cookies | _ \<Rightarrow> False))"
| "wf_storage_state _ = False"

fun is_dict :: "json \<Rightarrow> bool" where
  "is_dict (JObj kvs) = True"
| "is_dict _ = False"

fun wf_session :: "json \<Rightarrow> bool" where
  "wf_session (JObj kvs) =
     ((case map_of kvs ''storage_state'' of None \<Rightarrow> True | Some s \<Rightarrow> wf_storage_state s)
      \<and> (case map_of kvs ''metadata'' of None \<Rightarrow> True | Some m \<Rightarrow> is_dict m))"
| "wf_session _ = False"

text \<open>The specification's validity: a cookie named \<^verbatim>\<open>sessionid\<close> whose \<^verbatim>\<open>expires\<close> timestamp
  is strictly greater than the current time.\<close>

fun live_sessionid :: "rat \<Rightarrow> json \<Rightarrow> bool" where
  "live_sessionid now (JObj kvs) =
     (map_of kvs ''name'' = Some (JStr ''sessionid'')
      \<and> (case map_of kvs ''expires'' of
           Some v \<Rightarrow> (case v of JNum e \<Rightarrow> now < e | _ \<Rightarrow> False)
         | None \<Rightarrow> False))"
| "live_sessionid now _ = False"

definition has_live_sessionid :: "json list \<Rightarrow> rat \<Rightarrow> bool" where
  "has_live_sessionid cookies now = list_ex (live_sessionid now) cookies"

text \<open>The stored cookie set of a session document: \<^verbatim>\<open>None\<close> when there is no
  \<^verbatim>\<open>storage_state\<close> holding one.\<close>

definition stored_cookies :: "json \<Rightarrow> json list option" where
  "stored_cookies session_data =
     (case session_data of
        JObj kvs \<Rightarrow>
          (case map_of kvs ''storage_state'' of
             Some s \<Rightarrow>
               (case s of
                  JObj skvs \<Rightarrow>
                    (case map_of skvs ''cookies'' of
                       Some cs \<Rightarrow> (case cs of JArr cookies \<Rightarrow> Some cookies | _ \<Rightarrow> None)
                     | None \<Rightarrow> Some [])
                | _ \<Rightarrow> None)
           | None \<Rightarrow> None)
      | _ \<Rightarrow> None)"

definition session_valid_spec :: "json \<Rightarrow> rat \<Rightarrow> bool" where
  "session_valid_spec session_data now =
     (case stored_cookies session_data of
        Some cookies \<Rightarrow> has_live_sessionid cookies now
      | None \<Rightarrow> False)"

text \<open>The metadata block of a session document, the username it carries (\<^verbatim>\<open>None\<close> when it
  carries none), and the metadata block of the file stored under a name.\<close>

definition metadata_block :: "json \<Rightarrow> json option" where
  "metadata_block session_data =
     (case session_data of JObj kvs \<Rightarrow> map_of kvs ''metadata'' | _ \<Rightarrow> None)"

definition metadata_username :: "json \<Rightarrow> json" where
  "metadata_username session_data =
     (case metadata_block session_data of
        Some m \<Rightarrow>
          (case m of
             JObj mkvs \<Rightarrow> (case map_of mkvs ''username'' of Some v \<Rightarrow> v | None \<Rightarrow> JNull)
           | _ \<Rightarrow> JNull)
      | None \<Rightarrow> JNull)"


text \<open>The order of precedence as the specification words it: the constructor argument,
  then the metadata field, then the token of the file name, then nothing.\<close>

definition claimed_resolution :: "string option \<Rightarrow> json \<Rightarrow> json \<Rightarrow> json" where
  "claimed_resolution argument from_metadata from_filename =
     (let otherwise =
            (if truthy from_metadata then from_metadata
             else if truthy from_filename then from_filename
             else JNull)
      in case argument of
           Some n \<Rightarrow> if n \<noteq> [] then JStr n else otherwise
         | None \<Rightarrow> otherwise)"

text \<open>The order \<^verbatim>\<open>load_session\<close> follows: the metadata field, then the constructor argument,
  then the metadata field's empty value.\<close>

definition load_resolution :: "json \<Rightarrow> string option \<Rightarrow> json" where
  "load_resolution from_metadata argument =
     (if truthy from_metadata then from_metadata
      else (case argument of
              Some n \<Rightarrow> if n \<noteq> [] then JStr n else from_metadata
            | None \<Rightarrow> from_metadata))"

text \<open>The order \<^verbatim>\<open>list_sessions\<close> follows: the metadata field, then the token of the file
  name, then the placeholder.\<close>

definition list_resolution :: "json \<Rightarrow> json \<Rightarrow> json" where
  "list_resolution from_metadata from_filename =
     (if truthy from_metadata then from_metadata
      else if truthy from_filename then from_filename
      else JStr unknown_username)"

text \<open>The bare format: a dict with the lists \<^verbatim>\<open>cookies\<close> and \<^verbatim>\<open>origins\<close> and without the
  wrapper keys \<^verbatim>\<open>storage_state\<close> and \<^verbatim>\<open>metadata\<close>.\<close>

fun is_list :: "json \<Rightarrow> bool" where
  "is_list (JArr xs) = True"
| "is_list _ = False"

fun bare_format :: "json \<Rightarrow> bool" where
  "bare_format (JObj kvs) =
     ((case map_of kvs ''cookies'' of Some cs \<Rightarrow> is_list cs | None \<Rightarrow> False)
      \<and> (case map_of kvs ''origins'' of Some os \<Rightarrow> is_list os | None \<Rightarrow> False)
      \<and> map_of kvs ''storage_state'' = None
      \<and> map_of kvs ''metadata'' = None)"
| "bare_format _ = False"

text \<open>Observations on a run of \<^verbatim>\<open>manual_login\<close>: the waits among the events; a pass whose
  wait ends in the timeout; the events of passes \<^verbatim>\<open>k\<close> to \<^verbatim>\<open>n - 1\<close> when each of them
  times out; and the moment the page first shows a location other than the login page.\<close>

fun is_wait :: "event \<Rightarrow> bool" where
  "is_wait (Wait w) = True"
| "is_wait _ = False"

fun timed_out :: "attempt \<Rightarrow> bool" where
  "timed_out (Opened navigations url verified) =
     (\<not> snd (wait_for_url BASE_URL 300000 navigations))"
| "timed_out _ = False"

definition all_timed_out :: "nat \<Rightarrow> nat \<Rightarrow> event list" where
  "all_timed_out k n =
     concat (map (\<lambda>i. [Wait 300000] @ (if i + 1 < n then [Sleep 2] else []) @ [Cleanup])
               [k..<n])"

definition left_login_at :: "(nat \<times> string) list \<Rightarrow> nat option" where
  "left_login_at navigations =
     (case filter (\<lambda>nav. snd nav \<noteq> LOGIN_URL) navigations of
        [] \<Rightarrow> None
      | nav # _ \<Rightarrow> Some (fst nav))"


section \<open>Example data\<close>

definition plain_file :: "json \<Rightarrow> regular_file" where
  "plain_file d = \<lparr>content = Doc d, st_mtime = 50, st_size = 120\<rparr>"

definition sessionid_cookie :: "rat \<Rightarrow> json" where
  "sessionid_cookie expires =
     JObj [(''name'', JStr ''sessionid''), (''value'', JStr ''4815162342''),
           (''expires'', JNum expires)]"

definition csrf_cookie :: json where
  "csrf_cookie = JObj [(''name'', JStr ''csrftoken''), (''expires'', JNum 9000)]"

definition example_state :: json where
  "example_state =
     JObj [(''cookies'', JArr [csrf_cookie, sessionid_cookie 2000]), (''origins'', JArr [])]"

definition example_session :: "string \<Rightarrow> json" where
  "example_session name =
     JObj [(''storage_state'', example_state),
           (''metadata'',
              JObj [(''username'', JStr name), (''created_at'', JNum 100),
                    (''last_used'', JNum 200)])]"

definition example_session_at :: "string \<Rightarrow> rat \<Rightarrow> json" where
  "example_session_at name used =
     JObj [(''storage_state'', example_state),
           (''metadata'',
              JObj [(''username'', JStr name), (''created_at'', JNum 100),
                    (''last_used'', JNum used)])]"

definition example_dir :: directory where
  "example_dir =
     [(''bob_session.json'', plain_file (example_session_at ''bob'' 200)),
      (''notes.txt'', \<lparr>content = Unreadable, st_mtime = 10, st_size = 3\<rparr>),
      (''default_session.json'', plain_file (example_session_at ''dave'' 300)),
      (''carol_session.json'', plain_file (example_session_at ''carol'' 200))]"

definition onetap_url :: string where
  "onetap_url = ''https://www.instagram.com/accounts/onetap/''"

definition onetap_attempt :: attempt where
  "onetap_attempt = Opened [(1000, onetap_url)] onetap_url True"



definition bare_entry :: entry where
  "bare_entry =
     \<lparr>entry_username = JStr ''bob'', file_path = ''bob_session.json'',
      file_name = ''bob_session.json'', created_at = JNum 50, last_used = JNum 50,
      file_size = 120, is_valid = False\<rparr>"

section \<open>Session file names and removal\<close>

lemma read_contents_simps [simp]:
  "read_contents (Doc d) = Inr d"
  "read_contents Unreadable = Inl JSONDecodeError"
  "read_contents Undecodable = Inl UnicodeDecodeError"
  by (simp_all add: read_contents_def)

lemma lower_char_idem: "lower_char (lower_char c) = lower_char c"
  by (auto simp: lower_char_def Let_def of_char_of)

lemma lower_idem: "lower (lower s) = lower s"
  by (simp add: lower_def lower_char_idem)

lemma lower_Nil_iff: "lower s = [] \<longleftrightarrow> s = []"
  by (simp add: lower_def)


lemma lower_char_ascii: "(of_char c :: nat) < 128 \<Longrightarrow> (of_char (lower_char c) :: nat) < 128"
  by (auto simp: lower_char_def Let_def of_char_of)

lemma lower_ascii: "ascii_only s \<Longrightarrow> ascii_only (lower s)"
  by (induction s) (simp_all add: ascii_only_def lower_def lower_char_ascii)

lemma lower_Alice: "lower ''Alice'' = ''alice''"
  by code_simp


lemma ascii_Alice: "ascii_only ''Alice''"
  by (simp add: ascii_only_def)

text \<open>The special case for \<^verbatim>\<open>default\<close> in \<^verbatim>\<open>remove_session\<close> names the file the general
  rule names already.\<close>

lemma remove_session_eq:
  "remove_session name_max u fs =
     (if name_max < length (lower u @ ''_session.json'') then Inl OSError
      else if \<not> exists_file fs (lower u @ ''_session.json'') then Inr (False, fs)
      else Inr (True, AList.delete (lower u @ ''_session.json'') fs))"
  by (auto simp: remove_session_def path_exists_def Let_def)

text \<open>
  C9: for an ASCII username, the session file name is the lower-cased username followed by
  \<^verbatim>\<open>_session.json\<close>, or \<^verbatim>\<open>default_session.json\<close> when the username is empty or absent;
  normalising the username first changes neither the constructor's file name nor what
  \<^verbatim>\<open>remove_session\<close> does, and lower-casing a lower-cased username changes nothing.
\<close>

theorem session_file_name_idempotent:
  assumes "ascii_only n"
  shows "session_path (init_client (Some (lower n))) = session_path (init_client (Some n))
    \<and> session_path (init_client (Some n)) =
        (if n = [] then ''default_session.json'' else lower n @ ''_session.json'')
    \<and> session_path (init_client None) = ''default_session.json''
    \<and> remove_session name_max (lower n) fs = remove_session name_max n fs
    \<and> lower (lower n) = lower n
    \<and> ascii_only (lower n)"
  using lower_ascii [OF assms]
  by (simp add: init_client_def remove_session_eq lower_idem lower_Nil_iff)

theorem session_file_name_idempotent_witness:
  "ascii_only ''Alice''
   \<and> session_path (init_client (Some (lower ''Alice''))) = ''alice_session.json''
   \<and> session_path (init_client (Some ''Alice'')) = ''alice_session.json''
   \<and> remove_session 255 (lower ''Alice'') [(''alice_session.json'', plain_file JNull)]
       = remove_session 255 ''Alice'' [(''alice_session.json'', plain_file JNull)]
   \<and> lower (lower ''Alice'') = ''alice''"
  using session_file_name_idempotent
    [OF ascii_Alice, of 255 "[(''alice_session.json'', plain_file JNull)]"] ascii_Alice
  by (simp add: lower_Alice)






section \<open>The validity check\<close>

lemma in_keys_iff: "k \<in> fst ` set kvs \<longleftrightarrow> map_of kvs k \<noteq> None"
  by (simp add: map_of_eq_None_iff)

text \<open>On a well-formed cookie set the loop of \<^verbatim>\<open>list_sessions\<close> raises nothing and computes
  the specification's validity.\<close>

lemma is_valid_loop_spec:
  "list_all wf_cookie cookies \<Longrightarrow> 0 \<le> now \<Longrightarrow>
   is_valid_loop cookies now = Inr (has_live_sessionid cookies now)"
proof (induction cookies)
  case Nil
  show ?case by (simp add: has_live_sessionid_def)
next
  case (Cons c cs)
  then obtain kvs where c: "c = JObj kvs" by (cases c) auto
  from Cons have ih: "is_valid_loop cs now = Inr (has_live_sessionid cs now)" by simp
  from Cons.prems c have wf: "wf_cookie (JObj kvs)" by simp
  show ?case
    using wf Cons.prems(2)
    by (auto simp: c ih has_live_sessionid_def split: option.splits json.splits)
qed

text \<open>The loop of \<^verbatim>\<open>load_session\<close> is the loop of \<^verbatim>\<open>list_sessions\<close> followed, when it
  finds the live cookie, by the metadata step.\<close>

lemma load_session_loop_is_valid_loop:
  "load_session_loop cookies d c fs now t st =
     (case is_valid_loop cookies now of
        Inl e \<Rightarrow> Inl e
      | Inr v \<Rightarrow>
          if v then
            (case load_metadata d c fs t st of
               Inl e \<Rightarrow> Inl e
             | Inr (c', fs') \<Rightarrow> Inr (True, c', fs'))
          else Inr (False, c, fs))"
  by (induction cookies) (auto split: sum.splits)

lemma load_session_try_eq:
  "load_session_try c fs now t st =
     (case load_json fs (session_path c) of
        Inl e \<Rightarrow> Inl e
      | Inr d \<Rightarrow>
          (case session_is_valid d now of
             Inl e \<Rightarrow> Inl e
           | Inr v \<Rightarrow>
               if v then
                 (case load_metadata d c fs t st of
                    Inl e \<Rightarrow> Inl e
                  | Inr (c', fs') \<Rightarrow> Inr (True, c'\<lparr>is_logged_in := True\<rparr>, fs'))
               else Inr (False, c, fs)))"
  by (auto simp: load_session_try_def session_is_valid_def load_session_loop_is_valid_loop
      split: sum.splits)

lemma session_is_valid_spec:
  assumes "wf_session d" "0 \<le> now"
  shows "session_is_valid d now = Inr (session_valid_spec d now)"
proof -
  from assms(1) obtain kvs where d: "d = JObj kvs" by (cases d) auto
  show ?thesis
  proof (cases "map_of kvs ''storage_state''")
    case None
    then show ?thesis
      by (simp add: d session_is_valid_def session_valid_spec_def stored_cookies_def in_keys_iff)
  next
    case (Some s)
    with assms(1) d obtain skvs where s: "s = JObj skvs" by (cases s) auto
    show ?thesis
    proof (cases "map_of skvs ''cookies''")
      case None
      then show ?thesis
        using Some s
        by (simp add: d session_is_valid_def session_valid_spec_def stored_cookies_def
            in_keys_iff has_live_sessionid_def)
    next
      case cs: (Some cs)
      with assms(1) d Some s obtain cookies
        where c: "cs = JArr cookies" "list_all wf_cookie cookies"
        by (cases cs) auto
      show ?thesis
        using Some s cs c is_valid_loop_spec [OF c(2) assms(2)]
        by (simp add: d session_is_valid_def session_valid_spec_def stored_cookies_def in_keys_iff)
    qed
  qed
qed

text \<open>The metadata step raises nothing on a well-formed document.\<close>

lemma load_metadata_wf:
  assumes "wf_session d"
  shows "\<exists>c' fs'. load_metadata d c fs t st = Inr (c', fs')"
proof -
  from assms(1) obtain kvs where d: "d = JObj kvs" by (cases d) auto
  show ?thesis
  proof (cases "map_of kvs ''metadata''")
    case None
    then show ?thesis by (simp add: d load_metadata_def in_keys_iff)
  next
    case (Some m)
    with assms d obtain mkvs where "m = JObj mkvs" by (cases m) auto
    then show ?thesis using Some
      by (simp add: d load_metadata_def in_keys_iff Let_def)
  qed
qed



section \<open>Saving, loading and the username\<close>


lemma load_metadata_present:
  assumes "map_of kvs ''metadata'' = Some (JObj mkvs)"
  shows "load_metadata (JObj kvs) c fs t st =
     Inr (c\<lparr>current_username := load_resolution (metadata_username (JObj kvs)) (username c)\<rparr>,
          dump_json fs (session_path c)
            (JObj (AList.update ''metadata''
                     (JObj (AList.update ''last_used'' (JNum t) mkvs)) kvs))
            st)"
  using assms
  by (auto simp: load_metadata_def in_keys_iff Let_def metadata_username_def metadata_block_def
      load_resolution_def split: option.splits)

lemma load_metadata_absent:
  assumes "map_of kvs ''metadata'' = None"
  shows "load_metadata (JObj kvs) c fs t st = Inr (c, fs)"
  using assms by (simp add: load_metadata_def in_keys_iff)






lemma read_metadata_wf:
  assumes "wf_session d"
  shows "\<exists>created used. read_metadata d f = Inr (metadata_username d, created, used)"
proof -
  from assms obtain kvs where d: "d = JObj kvs" by (cases d) auto
  show ?thesis
  proof (cases "map_of kvs ''metadata''")
    case None
    then show ?thesis
      by (simp add: d read_metadata_def in_keys_iff metadata_username_def metadata_block_def)
  next
    case (Some m)
    with assms d obtain mkvs where "m = JObj mkvs" by (cases m) auto
    then show ?thesis using Some
      by (simp add: d read_metadata_def in_keys_iff metadata_username_def metadata_block_def)
  qed
qed

lemma resolve_username_eq: "resolve_username mu fu = list_resolution mu fu"
  by (simp add: resolve_username_def list_resolution_def Let_def)

lemma load_metadata_username:
  assumes "wf_session d" and "load_metadata d c fs t st = Inr (c', fs')"
  shows "current_username c' =
     (if metadata_block d \<noteq> None then load_resolution (metadata_username d) (username c)
      else current_username c)"
proof -
  from assms obtain kvs where d: "d = JObj kvs" by (cases d) auto
  show ?thesis
  proof (cases "map_of kvs ''metadata''")
    case None
    then show ?thesis
      using assms(2) by (auto simp: d load_metadata_absent metadata_block_def)
  next
    case (Some m)
    with assms d obtain mkvs where m: "m = JObj mkvs" by (cases m) auto
    show ?thesis
      using assms(2) Some by (auto simp: d m load_metadata_present metadata_block_def)
  qed
qed

text \<open>
  C3, as the code has it: for a well-formed session file, \<^verbatim>\<open>load_session\<close> sets the client's
  username when the session is valid and the file has a metadata block, and then the
  metadata's username comes first, the constructor argument second, and the empty value
  last; \<^verbatim>\<open>list_sessions\<close> shows the metadata's username first, the token of the file name
  second and the placeholder last.
\<close>

theorem username_precedence:
  assumes "map_of fs (session_path c) = Some f" and "content f = Doc d"
    and "wf_session d" and "0 \<le> now"
  shows "current_username (fst (snd (load_session c fs now t st))) =
      (if session_valid_spec d now \<and> metadata_block d \<noteq> None
       then load_resolution (metadata_username d) (username c)
       else current_username c)
    \<and> (\<exists>e. session_entry dir_path name f now = Inr e
           \<and> entry_username e = list_resolution (metadata_username d) (filename_username name))"
proof -
  have v: "session_is_valid d now = Inr (session_valid_spec d now)"
    using assms(3,4) by (rule session_is_valid_spec)
  have j: "load_json fs (session_path c) = Inr d"
    using assms(1,2) by (simp add: load_json_def)
  obtain c' fs' where m: "load_metadata d c fs t st = Inr (c', fs')"
    using load_metadata_wf [OF assms(3)] by blast
  have l: "load_session c fs now t st =
      (if session_valid_spec d now then (True, c'\<lparr>is_logged_in := True\<rparr>, fs')
       else (False, c, fs))"
    using assms(1) by (simp add: load_session_def exists_file_def load_session_try_eq j v m)
  have first: "current_username (fst (snd (load_session c fs now t st))) =
      (if session_valid_spec d now \<and> metadata_block d \<noteq> None
       then load_resolution (metadata_username d) (username c)
       else current_username c)"
    using load_metadata_username [OF assms(3) m] by (simp add: l)
  obtain created used where r: "read_metadata d f = Inr (metadata_username d, created, used)"
    using read_metadata_wf [OF assms(3)] by blast
  have second: "\<exists>e. session_entry dir_path name f now = Inr e
      \<and> entry_username e = list_resolution (metadata_username d) (filename_username name)"
    by (simp add: session_entry_def assms(2) r v resolve_username_eq)
  show ?thesis
    using first second by simp
qed

lemma example_session_facts:
  "wf_session (example_session n)"
  "session_valid_spec (example_session n) 1500"
  "metadata_block (example_session n) \<noteq> None"
  "metadata_username (example_session n) = JStr n"
  by (simp_all add: example_session_def example_state_def csrf_cookie_def sessionid_cookie_def
      session_valid_spec_def stored_cookies_def has_live_sessionid_def metadata_block_def
      metadata_username_def)

theorem username_precedence_witness:
  "current_username (fst (snd
      (load_session (init_client (Some ''Alice''))
         [(''alice_session.json'', plain_file (example_session ''bob''))] 1500 1501 (1501, 300))))
     = JStr ''bob''
   \<and> current_username (fst (snd
      (load_session (init_client (Some ''Alice''))
         [(''alice_session.json'', plain_file (example_session []))] 1500 1501 (1501, 300))))
     = JStr ''Alice''
   \<and> (\<exists>e. session_entry ''/sessions'' ''alice_session.json''
              (plain_file (example_session [])) 1500 = Inr e
          \<and> entry_username e = JStr ''alice'')"
proof -
  let ?c = "init_client (Some ''Alice'')"
  have p: "map_of [(''alice_session.json'', plain_file (example_session n))] (session_path ?c)
      = Some (plain_file (example_session n))" for n
    by (simp add: init_client_def lower_Alice)
  have d: "content (plain_file (example_session n)) = Doc (example_session n)" for n
    by (simp add: plain_file_def)
  have t: "(0::rat) \<le> 1500"
    by simp
  have u: "username ?c = Some ''Alice''"
    by (simp add: init_client_def)
  have f: "filename_username ''alice_session.json'' = JStr ''alice''"
    by (simp add: filename_username_def suffix_to_prefix)
  show ?thesis
    using username_precedence [OF p d example_session_facts(1) t, of "''bob''" 1501 "(1501, 300)"]
      username_precedence [OF p d example_session_facts(1) t, of "[]" 1501 "(1501, 300)"
        "''/sessions''" "''alice_session.json''"]
    by (simp add: example_session_facts u f load_resolution_def list_resolution_def)
qed

theorem username_precedence_counterexample:
  "current_username (fst (snd
      (load_session (init_client (Some ''alice''))
         [(''alice_session.json'', plain_file (example_session ''bob''))] 1500 1501 (1501, 300))))
   \<noteq> claimed_resolution (username (init_client (Some ''alice'')))
        (metadata_username (example_session ''bob'')) (filename_username ''alice_session.json'')"
proof -
  have l: "lower ''alice'' = ''alice''" by code_simp
  let ?c = "init_client (Some ''alice'')"
  let ?fs = "[(''alice_session.json'', plain_file (example_session ''bob''))]"
  have j: "load_json ?fs (session_path ?c) = Inr (example_session ''bob'')"
    by (simp add: load_json_def init_client_def l plain_file_def)
  have x: "exists_file ?fs (session_path ?c)"
    by (simp add: exists_file_def init_client_def l)
  have v: "session_is_valid (example_session ''bob'') 1500 = Inr True"
    by (simp add: session_is_valid_def example_session_def example_state_def csrf_cookie_def
        sessionid_cookie_def)
  have m: "current_username (fst (snd (load_session ?c ?fs 1500 1501 (1501, 300)))) = JStr ''bob''"
    by (simp add: load_session_def x load_session_try_eq j v)
      (simp add: example_session_def load_metadata_def Let_def init_client_def)
  have u: "username ?c = Some ''alice''"
    by (simp add: init_client_def)
  show ?thesis
    by (simp add: m u claimed_resolution_def)
qed

section \<open>The order of the listing\<close>

lemma sort_desc_Nil: "sort_desc key [] = []"
  by (simp add: sort_desc_def)

lemma sort_desc_Cons: "sort_desc key (x # xs) = insort_desc key x (sort_desc key xs)"
  by (simp add: sort_desc_def)

lemma insort_desc_mset: "mset (insort_desc key x xs) = add_mset x (mset xs)"
  by (induction xs) simp_all

lemma sort_desc_mset: "mset (sort_desc key xs) = mset xs"
  by (induction xs) (simp_all add: sort_desc_Nil sort_desc_Cons insort_desc_mset)

lemma insort_desc_set: "set (insort_desc key x xs) = insert x (set xs)"
  using insort_desc_mset [of key x xs] by (metis set_mset_add_mset_insert set_mset_mset)

lemma insort_desc_descending:
  "sorted_wrt (\<lambda>a b. key b \<le> key a) xs \<Longrightarrow>
   sorted_wrt (\<lambda>a b. key b \<le> key a) (insort_desc key x xs)"
proof (induction xs)
  case Nil
  show ?case by simp
next
  case (Cons y ys)
  show ?case
  proof (cases "key y \<le> key x")
    case True
    with Cons.prems show ?thesis by (auto intro: order_trans)
  next
    case False
    then have "key x \<le> key y" by simp
    with False Cons show ?thesis by (auto simp: insort_desc_set)
  qed
qed

lemma sort_desc_descending: "sorted_wrt (\<lambda>a b. key b \<le> key a) (sort_desc key xs)"
  by (induction xs) (simp_all add: sort_desc_Nil sort_desc_Cons insort_desc_descending)

text \<open>An inserted element passes only elements with a larger key, so the elements of one
  key keep their order.\<close>

lemma insort_desc_keeps_order:
  "filter (\<lambda>y. key y = v) (insort_desc key x xs) =
     (if key x = v then x # filter (\<lambda>y. key y = v) xs else filter (\<lambda>y. key y = v) xs)"
  by (induction xs) auto

lemma sort_desc_stable:
  "filter (\<lambda>y. key y = v) (sort_desc key xs) = filter (\<lambda>y. key y = v) xs"
  by (induction xs) (simp_all add: sort_desc_Nil sort_desc_Cons insort_desc_keeps_order)

lemma short_list_descending:
  "length xs \<le> 1 \<Longrightarrow> sorted_wrt (\<lambda>a b. key b \<le> key (a::'a)) xs"
  by (cases xs) auto

lemma py_sorted_reverse_numbers:
  assumes "list_all (\<lambda>x. is_number (key x)) xs"
  shows "\<exists>ys. py_sorted_reverse key xs = Inr ys \<and> mset ys = mset xs
    \<and> sorted_wrt (\<lambda>a b. number_of (key b) \<le> number_of (key a)) ys
    \<and> (\<forall>v. filter (\<lambda>y. number_of (key y) = v) ys = filter (\<lambda>y. number_of (key y) = v) xs)"
proof (cases "length xs \<le> 1")
  case True
  then show ?thesis
    by (simp add: py_sorted_reverse_def short_list_descending)
next
  case False
  then have "py_sorted_reverse key xs = Inr (sort_desc (\<lambda>x. number_of (key x)) xs)"
    using assms by (simp add: py_sorted_reverse_def)
  then show ?thesis
    using sort_desc_descending [of "\<lambda>x. number_of (key x)" xs]
    by (simp add: sort_desc_mset sort_desc_stable)
qed

lemma py_sorted_reverse_mset:
  "py_sorted_reverse key xs = Inr ys \<Longrightarrow> mset ys = mset xs"
  by (auto simp: py_sorted_reverse_def sort_desc_mset split: if_splits)

text \<open>
  C5: when the \<^verbatim>\<open>last_used\<close> of every collected entry is a number, \<^verbatim>\<open>list_sessions\<close> returns
  a list that holds exactly the collected entries, in descending order of \<^verbatim>\<open>last_used\<close>, the
  entries of equal \<^verbatim>\<open>last_used\<close> in the order in which they were collected.
\<close>

theorem list_sessions_sorted:
  assumes "list_all (\<lambda>e. is_number (last_used e))
             (collect_sessions dir_path fs clock 0 (session_files fs))"
  shows "\<exists>es. list_sessions dir_path (Some fs) clock = Inr es
    \<and> mset es = mset (collect_sessions dir_path fs clock 0 (session_files fs))
    \<and> sorted_wrt (\<lambda>a b. number_of (last_used b) \<le> number_of (last_used a)) es
    \<and> (\<forall>v. filter (\<lambda>e. number_of (last_used e) = v) es
           = filter (\<lambda>e. number_of (last_used e) = v)
               (collect_sessions dir_path fs clock 0 (session_files fs)))"
  using py_sorted_reverse_numbers [OF assms] by (simp add: list_sessions_def)

lemma example_dir_collected:
  "map (\<lambda>e. (file_name e, last_used e))
     (collect_sessions ''/sessions'' example_dir (\<lambda>i. 1500) 0 (session_files example_dir))
   = [(''bob_session.json'', JNum 200), (''default_session.json'', JNum 300),
      (''carol_session.json'', JNum 200), (''default_session.json'', JNum 300)]"
  by code_simp

lemma example_dir_listed:
  "(case list_sessions ''/sessions'' (Some example_dir) (\<lambda>i. 1500) of
      Inr es \<Rightarrow> map file_name es
    | Inl e \<Rightarrow> [])
   = [''default_session.json'', ''default_session.json'', ''bob_session.json'',
      ''carol_session.json'']"
  by code_simp

lemma example_dir_numbers:
  "list_all (\<lambda>e. is_number (last_used e))
     (collect_sessions ''/sessions'' example_dir (\<lambda>i. 1500) 0 (session_files example_dir))"
  by code_simp

theorem list_sessions_sorted_witness:
  "list_all (\<lambda>e. is_number (last_used e))
     (collect_sessions ''/sessions'' example_dir (\<lambda>i. 1500) 0 (session_files example_dir))
   \<and> (\<exists>es. list_sessions ''/sessions'' (Some example_dir) (\<lambda>i. 1500) = Inr es
         \<and> map file_name es =
             [''default_session.json'', ''default_session.json'', ''bob_session.json'',
              ''carol_session.json'']
         \<and> sorted_wrt (\<lambda>a b. number_of (last_used b) \<le> number_of (last_used a)) es)"
proof -
  obtain es where es: "list_sessions ''/sessions'' (Some example_dir) (\<lambda>i. 1500) = Inr es"
    and sorted: "sorted_wrt (\<lambda>a b. number_of (last_used b) \<le> number_of (last_used a)) es"
    using list_sessions_sorted [OF example_dir_numbers] by blast
  have "map file_name es =
      [''default_session.json'', ''default_session.json'', ''bob_session.json'',
       ''carol_session.json'']"
    using example_dir_listed by (simp add: es)
  then show ?thesis
    using es sorted example_dir_numbers by simp
qed

section \<open>The default session in the listing\<close>

lemma session_entry_file_name:
  "session_entry dir_path name f now = Inr e \<Longrightarrow> file_name e = name"
  by (auto simp: session_entry_def split: sum.splits)

text \<open>A file whose processing never raises contributes one entry for each time its name
  stands among the candidates.\<close>

lemma collect_sessions_count:
  assumes "map_of fs n = Some f"
    and "\<And>now. \<exists>e. session_entry dir_path n f now = Inr e"
  shows "length (filter (\<lambda>e. file_name e = n) (collect_sessions dir_path fs clock i names))
    = length (filter (\<lambda>name. name = n) names)"
proof (induction names arbitrary: i)
  case Nil
  show ?case by simp
next
  case (Cons name names)
  show ?case
  proof (cases "name = n")
    case True
    obtain e where e: "session_entry dir_path n f (clock i) = Inr e"
      using assms(2) by blast
    then have "file_name e = n"
      by (rule session_entry_file_name)
    then show ?thesis
      using True e assms(1) Cons.IH [of "Suc i"] by simp
  next
    case False
    show ?thesis
    proof (cases "map_of fs name")
      case None
      then show ?thesis
        using False Cons.IH [of "Suc i"] by simp
    next
      case (Some g)
      show ?thesis
      proof (cases "session_entry dir_path name g (clock i)")
        case (Inl err)
        then show ?thesis
          using False Some Cons.IH [of "Suc i"] by simp
      next
        case (Inr e)
        then have "file_name e = name"
          by (rule session_entry_file_name)
        then show ?thesis
          using False Some Inr Cons.IH [of "Suc i"] by simp
      qed
    qed
  qed
qed

lemma distinct_single_occurrence:
  "distinct xs \<Longrightarrow> n \<in> set xs \<Longrightarrow> length (filter (\<lambda>x. x = n) xs) = 1"
  by (induction xs) (auto simp: filter_empty_conv)

lemma default_matches_pattern: "suffix ''_session.json'' ''default_session.json''"
  by (simp add: suffix_to_prefix)

lemma session_files_default_twice:
  assumes "distinct (map fst fs)" and "map_of fs ''default_session.json'' = Some f"
  shows "length (filter (\<lambda>name. name = ''default_session.json'') (session_files fs)) = 2"
proof -
  let ?globbed = "filter (\<lambda>name. suffix ''_session.json'' name) (map fst fs)"
  have "''default_session.json'' \<in> set (map fst fs)"
    using assms(2) by (metis map_of_eq_None_iff option.distinct(1) set_map)
  then have "''default_session.json'' \<in> set ?globbed"
    using default_matches_pattern by simp
  moreover have "distinct ?globbed"
    using assms(1) by simp
  ultimately have "length (filter (\<lambda>name. name = ''default_session.json'') ?globbed) = 1"
    by (simp only: distinct_single_occurrence)
  then show ?thesis
    by (simp add: session_files_def)
qed

text \<open>
  C10: in a directory whose names are distinct and which holds \<^verbatim>\<open>default_session.json\<close>, a
  file whose processing never raises, every list that \<^verbatim>\<open>list_sessions\<close> returns has exactly
  two entries for that file: the pattern matches its name, and the name is appended to the
  candidates once more.
\<close>

theorem default_session_listed_twice:
  assumes "distinct (map fst fs)" and "map_of fs ''default_session.json'' = Some f"
    and "\<And>now. \<exists>e. session_entry dir_path ''default_session.json'' f now = Inr e"
    and "list_sessions dir_path (Some fs) clock = Inr es"
  shows "length (filter (\<lambda>e. file_name e = ''default_session.json'') es) = 2"
proof -
  let ?xs = "collect_sessions dir_path fs clock 0 (session_files fs)"
  have "mset es = mset ?xs"
    using assms(4) by (simp add: list_sessions_def py_sorted_reverse_mset)
  then have "mset (filter (\<lambda>e. file_name e = ''default_session.json'') es)
      = mset (filter (\<lambda>e. file_name e = ''default_session.json'') ?xs)"
    by simp
  then have "length (filter (\<lambda>e. file_name e = ''default_session.json'') es)
      = length (filter (\<lambda>e. file_name e = ''default_session.json'') ?xs)"
    by (rule mset_eq_length)
  also have "\<dots> = length (filter (\<lambda>name. name = ''default_session.json'') (session_files fs))"
    using assms(2,3) by (rule collect_sessions_count)
  also have "\<dots> = 2"
    using assms(1,2) by (rule session_files_default_twice)
  finally show ?thesis .
qed

lemma is_valid_loop_wf:
  "list_all wf_cookie cookies \<Longrightarrow> \<exists>v. is_valid_loop cookies now = Inr v"
proof (induction cookies)
  case Nil
  show ?case by auto
next
  case (Cons c cs)
  then obtain kvs where c: "c = JObj kvs" by (cases c) auto
  from Cons obtain v where "is_valid_loop cs now = Inr v" by auto
  then show ?case
    using Cons.prems by (auto simp: c split: option.splits json.splits)
qed

lemma session_is_valid_wf:
  assumes "wf_session d"
  shows "\<exists>v. session_is_valid d now = Inr v"
proof -
  from assms obtain kvs where d: "d = JObj kvs" by (cases d) auto
  show ?thesis
  proof (cases "map_of kvs ''storage_state''")
    case None
    then show ?thesis by (auto simp: d session_is_valid_def in_keys_iff)
  next
    case (Some s)
    with assms d obtain skvs where s: "s = JObj skvs" by (cases s) auto
    show ?thesis
    proof (cases "map_of skvs ''cookies''")
      case None
      then show ?thesis using Some s by (auto simp: d session_is_valid_def in_keys_iff)
    next
      case cs: (Some cs)
      with assms d Some s obtain cookies
        where c: "cs = JArr cookies" "list_all wf_cookie cookies"
        by (cases cs) auto
      show ?thesis
        using Some s cs c is_valid_loop_wf [OF c(2), of now]
        by (auto simp: d session_is_valid_def in_keys_iff)
    qed
  qed
qed

lemma session_entry_wf:
  assumes "content f = Doc d" and "wf_session d"
  shows "\<exists>e. session_entry dir_path name f now = Inr e"
proof -
  obtain created used where "read_metadata d f = Inr (metadata_username d, created, used)"
    using read_metadata_wf [OF assms(2)] by blast
  moreover obtain v where "session_is_valid d now = Inr v"
    using session_is_valid_wf [OF assms(2)] by blast
  ultimately show ?thesis
    by (simp add: session_entry_def assms(1))
qed

theorem default_session_listed_twice_witness:
  "distinct (map fst example_dir)
   \<and> (\<exists>es. list_sessions ''/sessions'' (Some example_dir) (\<lambda>i. 1500) = Inr es
         \<and> length (filter (\<lambda>e. file_name e = ''default_session.json'') es) = 2)"
proof -
  let ?f = "plain_file (example_session_at ''dave'' 300)"
  have names: "distinct (map fst example_dir)"
    by (simp add: example_dir_def)
  have held: "map_of example_dir ''default_session.json'' = Some ?f"
    by (simp add: example_dir_def)
  have "wf_session (example_session_at ''dave'' 300)"
    by (simp add: example_session_at_def example_state_def csrf_cookie_def sessionid_cookie_def)
  then have readable:
    "\<exists>e. session_entry ''/sessions'' ''default_session.json'' ?f now = Inr e" for now
    by (intro session_entry_wf) (simp add: plain_file_def)
  obtain es where es: "list_sessions ''/sessions'' (Some example_dir) (\<lambda>i. 1500) = Inr es"
    using py_sorted_reverse_numbers [OF example_dir_numbers] by (auto simp: list_sessions_def)
  show ?thesis
    using names es default_session_listed_twice [OF names held readable es] by simp
qed

section \<open>The bare format\<close>

lemma is_list_iff: "is_list j \<longleftrightarrow> (\<exists>xs. j = JArr xs)"
  by (cases j) auto

text \<open>A file whose entry does not depend on the clock is listed among the collected
  entries when its name is among the candidates.\<close>

lemma collect_sessions_member:
  assumes "map_of fs n = Some f"
    and "\<And>now. session_entry dir_path n f now = Inr e"
    and "n \<in> set names"
  shows "e \<in> set (collect_sessions dir_path fs clock i names)"
  using assms(3)
proof (induction names arbitrary: i)
  case Nil
  then show ?case by simp
next
  case (Cons name names)
  show ?case
  proof (cases "name = n")
    case True
    then show ?thesis
      using assms(1,2) by simp
  next
    case False
    with Cons.prems have "n \<in> set names" by simp
    then have "e \<in> set (collect_sessions dir_path fs clock (Suc i) names)"
      by (rule Cons.IH)
    then show ?thesis
      by (auto split: option.splits sum.splits)
  qed
qed

lemma bare_format_entry:
  assumes "content f = Doc d" and "bare_format d"
  shows "session_entry dir_path name f now =
        Inr \<lparr>entry_username = list_resolution JNull (filename_username name),
             file_path = path_join dir_path name, file_name = name,
             created_at = JNum (st_mtime f), last_used = JNum (st_mtime f),
             file_size = st_size f, is_valid = False\<rparr>"
proof -
  from assms(2) obtain kvs where d: "d = JObj kvs" by (cases d) auto
  from assms(2) d have k: "map_of kvs ''storage_state'' = None" "map_of kvs ''metadata'' = None"
    by auto
  show ?thesis
    using k
    by (simp add: session_entry_def assms(1) d read_metadata_def session_is_valid_def in_keys_iff
        resolve_username_eq)
qed

text \<open>
  C2, as the code has it: a session file in the bare format is accepted by the stand-alone
  check \<^verbatim>\<open>check_session_file\<close>, while \<^verbatim>\<open>load_session\<close> rejects it: it returns \<^verbatim>\<open>False\<close> and
  changes neither the client nor the directory. When the file's name ends in
  \<^verbatim>\<open>_session.json\<close>, every list that \<^verbatim>\<open>list_sessions\<close> returns holds an entry for it, with
  both timestamps taken from the file's modification time and \<^verbatim>\<open>is_valid\<close> false.
\<close>

theorem bare_format_read:
  assumes "map_of fs p = Some f" and "content f = Doc d" and "bare_format d"
  shows "check_session_file fs p = Inr True
    \<and> load_session (c\<lparr>session_path := p\<rparr>) fs now t st = (False, c\<lparr>session_path := p\<rparr>, fs)
    \<and> (suffix ''_session.json'' p \<and> list_sessions dir_path (Some fs) clock = Inr es \<longrightarrow>
         \<lparr>entry_username = list_resolution JNull (filename_username p),
          file_path = path_join dir_path p, file_name = p,
          created_at = JNum (st_mtime f), last_used = JNum (st_mtime f),
          file_size = st_size f, is_valid = False\<rparr> \<in> set es)"
proof -
  let ?e = "\<lparr>entry_username = list_resolution JNull (filename_username p),
          file_path = path_join dir_path p, file_name = p,
          created_at = JNum (st_mtime f), last_used = JNum (st_mtime f),
          file_size = st_size f, is_valid = False\<rparr>"
  from assms(3) obtain kvs where d: "d = JObj kvs" by (cases d) auto
  from assms(3) d obtain cs os where k: "map_of kvs ''cookies'' = Some (JArr cs)"
      "map_of kvs ''origins'' = Some (JArr os)"
      "map_of kvs ''storage_state'' = None" "map_of kvs ''metadata'' = None"
    by (auto simp: is_list_iff split: option.splits)
  have j: "load_json fs p = Inr d"
    using assms(1,2) by (simp add: load_json_def)
  have chk: "check_session_file fs p = Inr True"
    using assms(1) k
    by (simp add: check_session_file_def exists_file_def j d in_keys_iff)
  have ld: "load_session (c\<lparr>session_path := p\<rparr>) fs now t st
      = (False, c\<lparr>session_path := p\<rparr>, fs)"
    using assms(1) k
    by (simp add: load_session_def exists_file_def load_session_try_def j d in_keys_iff)
  have listed: "?e \<in> set es"
    if name: "suffix ''_session.json'' p"
      and returned: "list_sessions dir_path (Some fs) clock = Inr es"
  proof -
    have "p \<in> set (map fst fs)"
      using assms(1) by (metis map_of_eq_None_iff option.distinct(1) set_map)
    then have "p \<in> set (session_files fs)"
      using name by (simp add: session_files_def)
    then have "?e \<in> set (collect_sessions dir_path fs clock 0 (session_files fs))"
      using bare_format_entry [OF assms(2,3)] assms(1)
      by (intro collect_sessions_member) auto
    moreover have "mset es = mset (collect_sessions dir_path fs clock 0 (session_files fs))"
      using returned by (simp add: list_sessions_def py_sorted_reverse_mset)
    ultimately show ?thesis
      by (metis mset_eq_setD)
  qed
  show ?thesis
    using chk ld listed by blast
qed

lemma bare_example_state: "bare_format example_state"
  by (simp add: example_state_def)

lemma bare_example_listed:
  "list_sessions ''.'' (Some [(''bob_session.json'', plain_file example_state)]) (\<lambda>i. 1500)
     = Inr [bare_entry]"
  by code_simp

theorem bare_format_read_witness:
  "bare_format example_state
   \<and> check_session_file [(''bob_session.json'', plain_file example_state)] ''bob_session.json''
       = Inr True
   \<and> \<not> fst (load_session ((init_client None)\<lparr>session_path := ''bob_session.json''\<rparr>)
              [(''bob_session.json'', plain_file example_state)] 1500 1501 (1501, 300))
   \<and> suffix ''_session.json'' ''bob_session.json''
   \<and> list_sessions ''.'' (Some [(''bob_session.json'', plain_file example_state)]) (\<lambda>i. 1500)
       = Inr [bare_entry]
   \<and> \<lparr>entry_username = list_resolution JNull (filename_username ''bob_session.json''),
       file_path = path_join ''.'' ''bob_session.json'', file_name = ''bob_session.json'',
       created_at = JNum (st_mtime (plain_file example_state)),
       last_used = JNum (st_mtime (plain_file example_state)),
       file_size = st_size (plain_file example_state), is_valid = False\<rparr>
      \<in> set [bare_entry]"
proof -
  have p: "map_of [(''bob_session.json'', plain_file example_state)] ''bob_session.json''
      = Some (plain_file example_state)"
    by simp
  have d: "content (plain_file example_state) = Doc example_state"
    by (simp add: plain_file_def)
  have n: "suffix ''_session.json'' ''bob_session.json''"
    by (simp add: suffix_to_prefix)
  note read = bare_format_read [OF p d bare_example_state, of "init_client None" 1500 1501
      "(1501, 300)" "''.''" "\<lambda>i. 1500" "[bare_entry]"]
  have "check_session_file [(''bob_session.json'', plain_file example_state)]
      ''bob_session.json'' = Inr True"
    using read by blast
  moreover have "\<not> fst (load_session ((init_client None)\<lparr>session_path := ''bob_session.json''\<rparr>)
      [(''bob_session.json'', plain_file example_state)] 1500 1501 (1501, 300))"
    using read by simp
  moreover have "\<lparr>entry_username = list_resolution JNull (filename_username ''bob_session.json''),
       file_path = path_join ''.'' ''bob_session.json'', file_name = ''bob_session.json'',
       created_at = JNum (st_mtime (plain_file example_state)),
       last_used = JNum (st_mtime (plain_file example_state)),
       file_size = st_size (plain_file example_state), is_valid = False\<rparr>
      \<in> set [bare_entry]"
    using read n bare_example_listed by blast
  ultimately show ?thesis
    using bare_example_state n bare_example_listed by blast
qed

theorem bare_format_rejected_counterexample:
  "bare_format example_state
   \<and> has_live_sessionid [csrf_cookie, sessionid_cookie 2000] 1500
   \<and> \<not> fst (load_session (init_client (Some ''bob''))
              [(''bob_session.json'', plain_file example_state)] 1500 1501 (1501, 300))"
proof -
  have l: "lower ''bob'' = ''bob''" by code_simp
  show ?thesis
    by (simp add: example_state_def has_live_sessionid_def csrf_cookie_def sessionid_cookie_def
        load_session_def exists_file_def init_client_def l load_session_try_def load_json_def
        plain_file_def)
qed

section \<open>Manual login\<close>

lemma wait_for_url_bound: "fst (wait_for_url target timeout navigations) \<le> timeout"
proof (cases "filter (\<lambda>nav. snd nav = target \<and> fst nav \<le> timeout) navigations")
  case Nil
  then show ?thesis by (simp add: wait_for_url_def)
next
  case (Cons nav rest)
  then have "nav \<in> set (filter (\<lambda>nav. snd nav = target \<and> fst nav \<le> timeout) navigations)"
    by simp
  then have "fst nav \<le> timeout" by simp
  then show ?thesis using Cons by (simp add: wait_for_url_def)
qed

lemma wait_for_url_timeout:
  "\<not> snd (wait_for_url target timeout navigations) \<Longrightarrow>
   wait_for_url target timeout navigations = (timeout, False)"
  by (auto simp: wait_for_url_def split: list.splits)

text \<open>From pass \<^verbatim>\<open>k\<close> on, no wait is longer than five minutes, every sleep is two seconds,
  and there are at most \<^verbatim>\<open>n - k\<close> waits and clean-ups.\<close>

lemma loop_events:
  "(\<forall>w. Wait w \<in> set (snd (manual_login_loop k n env)) \<longrightarrow> w \<le> 300000)
   \<and> (\<forall>s. Sleep s \<in> set (snd (manual_login_loop k n env)) \<longrightarrow> s = 2)
   \<and> length (filter is_wait (snd (manual_login_loop k n env))) \<le> n - k
   \<and> length (filter (\<lambda>ev. ev = Cleanup) (snd (manual_login_loop k n env))) \<le> n - k"
proof (induction k n env rule: manual_login_loop.induct)
  case (1 k n env)
  show ?case
  proof (cases "k < n")
    case False
    then show ?thesis by (simp add: manual_login_loop.simps [of k n env])
  next
    case True
    note lt = True
    show ?thesis
    proof (cases "env k")
      case InitFailed
      then show ?thesis
        using lt "1.IH"(1) [OF lt InitFailed]
        by (auto simp: manual_login_loop.simps [of k n env] split: prod.splits)
    next
      case GotoError
      then show ?thesis
        using lt "1.IH"(2) [OF lt GotoError]
        by (auto simp: manual_login_loop.simps [of k n env] split: prod.splits)
    next
      case OtherError
      then show ?thesis
        using lt by (simp add: manual_login_loop.simps [of k n env])
    next
      case (Opened navigations url verified)
      obtain waited reached
        where w: "wait_for_url BASE_URL 300000 navigations = (waited, reached)"
        by (cases "wait_for_url BASE_URL 300000 navigations")
      have b: "waited \<le> 300000"
        using wait_for_url_bound [of BASE_URL 300000 navigations] by (simp add: w)
      show ?thesis
      proof (cases reached)
        case True
        then show ?thesis
          using lt Opened w b by (auto simp: manual_login_loop.simps [of k n env])
      next
        case False
        then show ?thesis
          using lt Opened w b "1.IH"(3) [OF lt Opened refl w [symmetric]]
          by (auto simp: manual_login_loop.simps [of k n env] split: prod.splits)
      qed
    qed
  qed
qed

lemma loop_all_timed_out:
  "\<forall>i. k \<le> i \<and> i < n \<longrightarrow> timed_out (env i) \<Longrightarrow>
   manual_login_loop k n env = (False, all_timed_out k n)"
proof (induction k n env rule: manual_login_loop.induct)
  case (1 k n env)
  show ?case
  proof (cases "k < n")
    case False
    then show ?thesis
      by (simp add: manual_login_loop.simps [of k n env] all_timed_out_def)
  next
    case True
    with "1.prems" have "timed_out (env k)" by simp
    then obtain navigations url verified
      where o: "env k = Opened navigations url verified"
        and t: "\<not> snd (wait_for_url BASE_URL 300000 navigations)"
      by (cases "env k") auto
    have w: "wait_for_url BASE_URL 300000 navigations = (300000, False)"
      using t by (rule wait_for_url_timeout)
    have rest: "manual_login_loop (k + 1) n env = (False, all_timed_out (k + 1) n)"
      using "1.IH"(3) [OF True o refl w [symmetric]] "1.prems" by simp
    have unroll: "all_timed_out k n =
        [Wait 300000] @ (if k + 1 < n then [Sleep 2] else []) @ [Cleanup]
          @ all_timed_out (k + 1) n"
      using True by (simp add: all_timed_out_def upt_conv_Cons)
    show ?thesis
      using True o w rest unroll by (simp add: manual_login_loop.simps [of k n env])
  qed
qed

lemma loop_first_wait:
  assumes "k < n" and "env k = Opened navigations url verified"
  shows "hd (snd (manual_login_loop k n env))
    = Wait (fst (wait_for_url BASE_URL 300000 navigations))"
  using assms
  by (auto simp: manual_login_loop.simps [of k n env] split: prod.splits)

text \<open>
  C8, as the code has it: \<^verbatim>\<open>manual_login\<close> always returns. When the login page opens it
  blocks until the page's location is the base URL, for at most 300000 milliseconds; no
  wait is longer, every sleep lasts 2 seconds, and with \<^verbatim>\<open>max_retries = n\<close> there are at most
  \<^verbatim>\<open>n\<close> waits and clean-ups. When every pass times out, it returns \<^verbatim>\<open>False\<close> after \<^verbatim>\<open>n\<close>
  waits of five minutes with a sleep between consecutive passes.
\<close>

theorem manual_login_bounded:
  "(\<forall>w. Wait w \<in> set (snd (manual_login n env)) \<longrightarrow> w \<le> 300000)
   \<and> (\<forall>s. Sleep s \<in> set (snd (manual_login n env)) \<longrightarrow> s = 2)
   \<and> length (filter is_wait (snd (manual_login n env))) \<le> n
   \<and> length (filter (\<lambda>ev. ev = Cleanup) (snd (manual_login n env))) \<le> n
   \<and> ((\<forall>i<n. timed_out (env i)) \<longrightarrow> manual_login n env = (False, all_timed_out 0 n))
   \<and> (0 < n \<and> env 0 = Opened navigations url verified \<longrightarrow>
        hd (snd (manual_login n env))
          = Wait (fst (wait_for_url BASE_URL 300000 navigations)))"
proof -
  have "(\<forall>i<n. timed_out (env i)) \<longrightarrow> manual_login n env = (False, all_timed_out 0 n)"
    using loop_all_timed_out [of 0 n env] by (simp add: manual_login_def)
  moreover have "0 < n \<and> env 0 = Opened navigations url verified \<longrightarrow>
        hd (snd (manual_login n env)) = Wait (fst (wait_for_url BASE_URL 300000 navigations))"
    using loop_first_wait [of 0 n env] by (simp add: manual_login_def)
  ultimately show ?thesis
    using loop_events [of 0 n env] by (simp add: manual_login_def)
qed

lemma onetap_timed_out: "timed_out onetap_attempt"
  by (simp add: onetap_attempt_def wait_for_url_def BASE_URL_def onetap_url_def)

lemma all_timed_out_3:
  "all_timed_out 0 3 =
     [Wait 300000, Sleep 2, Cleanup, Wait 300000, Sleep 2, Cleanup, Wait 300000, Cleanup]"
  by (simp add: all_timed_out_def upt_conv_Cons)

theorem manual_login_bounded_witness:
  "timed_out onetap_attempt
   \<and> manual_login 3 (\<lambda>i. onetap_attempt) =
       (False,
        [Wait 300000, Sleep 2, Cleanup, Wait 300000, Sleep 2, Cleanup, Wait 300000, Cleanup])
   \<and> hd (snd (manual_login 3 (\<lambda>i. onetap_attempt)))
       = Wait (fst (wait_for_url BASE_URL 300000 [(1000, onetap_url)]))"
proof -
  have timeouts: "\<forall>i<3::nat. timed_out ((\<lambda>i. onetap_attempt) i)"
    using onetap_timed_out by simp
  note bounded =
    manual_login_bounded [of 3 "\<lambda>i. onetap_attempt" "[(1000, onetap_url)]" onetap_url True]
  have "manual_login 3 (\<lambda>i. onetap_attempt) = (False, all_timed_out 0 3)"
    using bounded timeouts by blast
  moreover have "hd (snd (manual_login 3 (\<lambda>i. onetap_attempt)))
       = Wait (fst (wait_for_url BASE_URL 300000 [(1000, onetap_url)]))"
    using bounded by (simp add: onetap_attempt_def)
  ultimately show ?thesis
    using onetap_timed_out by (simp only: all_timed_out_3 simp_thms)
qed

text \<open>The page leaves the login page after one second for a location that is not the base
  URL; each of the three passes still waits the full five minutes and the login fails.\<close>

theorem manual_login_wait_counterexample:
  "left_login_at [(1000, onetap_url)] = Some 1000
   \<and> manual_login 3 (\<lambda>i. Opened [(1000, onetap_url)] onetap_url True) =
       (False,
        [Wait 300000, Sleep 2, Cleanup, Wait 300000, Sleep 2, Cleanup, Wait 300000, Cleanup])"
  by (simp add: left_login_at_def LOGIN_URL_def onetap_url_def manual_login_def
      manual_login_loop.simps wait_for_url_def BASE_URL_def)

end
